theory Spec2Isabelle
  imports Complex_Main "HOL-Library.Sublist"
begin

section \<open>Text and numbers\<close>

text \<open>
  The library works on Python \<open>bytes\<close> and \<open>str\<close>. Both are modelled as \<open>string\<close>
  (a list of 8-bit characters): a byte is a \<open>char\<close>, and text is the text that
  \<open>bytes.decode('ascii', errors='ignore')\<close> produces, so every character of a decoded
  buffer is below 128.

  Python's \<open>float\<close> is modelled as an exact rational: rounding and infinities of the
  IEEE doubles are not modelled. The one float operation of the library that raises,
  the conversion of an \<open>int\<close> too large for a double in \<open>int / float\<close>, is an
  error branch of the model. Python's \<open>int\<close> of a string of decimal digits is a natural
  number; the interpreter's configurable limit on the length of such a string
  (\<open>sys.set_int_max_str_digits\<close>, absent from Python 3.8.0) is not modelled.
\<close>

type_synonym bytes = string

definition apos :: char where
  "apos = CHR 0x27"

definition dquote :: char where
  "dquote = CHR 0x22"

definition is_digit :: "char \<Rightarrow> bool" where
  "is_digit c = (48 \<le> (of_char c :: nat) \<and> (of_char c :: nat) \<le> 57)"

definition is_lower :: "char \<Rightarrow> bool" where
  "is_lower c = (97 \<le> (of_char c :: nat) \<and> (of_char c :: nat) \<le> 122)"

definition is_sign :: "char \<Rightarrow> bool" where
  "is_sign c = (c = CHR ''+'' \<or> c = CHR ''-'')"

text \<open>\<open>str.isspace\<close> on the code points below 256.\<close>

definition is_space :: "char \<Rightarrow> bool" where
  "is_space c = ((of_char c :: nat) \<in> {9, 10, 11, 12, 13, 28, 29, 30, 31, 32, 133, 160})"

definition digits :: "string \<Rightarrow> bool" where
  "digits ds = (ds \<noteq> [] \<and> list_all is_digit ds)"

definition digit_val :: "char \<Rightarrow> nat" where
  "digit_val c = of_char c - 48"

text \<open>\<open>int(s)\<close> for a string of decimal digits, the only strings the patterns pass to it.\<close>

definition py_int :: "string \<Rightarrow> nat" where
  "py_int s = foldl (\<lambda>a c. 10 * a + digit_val c) 0 s"

text \<open>
  \<open>float(s)\<close> for \<open>s\<close> of the form \<open>digits\<close> or \<open>digits.digits\<close>, the only strings the
  patterns pass to it.
\<close>

definition py_float :: "string \<Rightarrow> rat" where
  "py_float s =
     (case dropWhile is_digit s of
        [] \<Rightarrow> of_nat (py_int s)
      | _ # fraction \<Rightarrow>
          of_nat (py_int (takeWhile is_digit s)) + of_nat (py_int fraction) / 10 ^ length fraction)"

text \<open>The slice \<open>s[i:j]\<close> for \<open>0 \<le> i \<le> j\<close>: short or empty when \<open>s\<close> is short.\<close>

definition py_slice :: "string \<Rightarrow> nat \<Rightarrow> nat \<Rightarrow> string" where
  "py_slice s i j = take (j - i) (drop i s)"

text \<open>\<open>s.strip()\<close>, \<open>s.split(c)\<close> and \<open>data.decode('ascii', errors='ignore')\<close>.\<close>

definition strip :: "string \<Rightarrow> string" where
  "strip s = rev (dropWhile is_space (rev (dropWhile is_space s)))"

fun split_on :: "char \<Rightarrow> string \<Rightarrow> string list" where
  "split_on c [] = [[]]"
| "split_on c (x # xs) =
     (if x = c then [] # split_on c xs
      else (case split_on c xs of [] \<Rightarrow> [[x]] | y # ys \<Rightarrow> (x # y) # ys))"

definition decode_ascii_ignore :: "bytes \<Rightarrow> string" where
  "decode_ascii_ignore data = filter (\<lambda>b. (of_char b :: nat) < 128) data"

section \<open>Regular expressions of the library\<close>

text \<open>
  The three patterns of the library use literals, single characters of a class and
  greedy \<open>+\<close> repetitions of a class. \<open>rmatch\<close> is \<open>re.match\<close> on such a pattern: it
  matches at the start of the string, not necessarily to its end, tries the longest
  repetition first and backtracks to shorter ones. It returns the text consumed by each
  atom; a capture group is the concatenation of the texts of the atoms it spans.
\<close>

datatype cls = Digit | Lower | Sign

fun in_cls :: "cls \<Rightarrow> char \<Rightarrow> bool" where
  "in_cls Digit c = is_digit c"
| "in_cls Lower c = is_lower c"
| "in_cls Sign c = is_sign c"

datatype atom = Lit char | One cls | Plus cls

fun rmatch :: "atom list \<Rightarrow> string \<Rightarrow> string list option"
  and plus_try :: "atom list \<Rightarrow> string \<Rightarrow> nat \<Rightarrow> string list option" where
  "rmatch [] s = Some []"
| "rmatch (Lit c # as) s =
     (case s of [] \<Rightarrow> None
      | x # xs \<Rightarrow> if x = c then map_option ((#) [x]) (rmatch as xs) else None)"
| "rmatch (One k # as) s =
     (case s of [] \<Rightarrow> None
      | x # xs \<Rightarrow> if in_cls k x then map_option ((#) [x]) (rmatch as xs) else None)"
| "rmatch (Plus k # as) s = plus_try as s (length (takeWhile (in_cls k) s))"
| "plus_try as s 0 = None"
| "plus_try as s (Suc n) =
     (case rmatch as (drop (Suc n) s) of
        Some ps \<Rightarrow> Some (take (Suc n) s # ps)
      | None \<Rightarrow> plus_try as s n)"

text \<open>The text of the atoms \<open>i..<j\<close>.\<close>

definition grp :: "string list \<Rightarrow> nat \<Rightarrow> nat \<Rightarrow> string" where
  "grp ps i j = concat (take (j - i) (drop i ps))"

text \<open>\<open>[+-]\d+d\d+'\d+\.\d+"\<close>\<close>

definition dms_atoms :: "atom list" where
  "dms_atoms = [One Sign, Plus Digit, Lit (CHR ''d''), Plus Digit, Lit apos,
                Plus Digit, Lit (CHR ''.''), Plus Digit, Lit dquote]"

text \<open>\<open>([+-])(\d+)d(\d+)\'(\d+\.\d+)"\<close>: groups at atoms 0, 1, 3 and 5 to 7.\<close>

definition dms_re :: "atom list" where
  "dms_re = dms_atoms"

text \<open>
  \<open>([+-]\d+d\d+\'\d+\.\d+")\,([+-]\d+d\d+\'\d+\.\d+")\,(\d+);\<close>: groups at atoms 0 to 8,
  10 to 18 and 20.
\<close>

definition track_re :: "atom list" where
  "track_re = dms_atoms @ [Lit (CHR '','')] @ dms_atoms @ [Lit (CHR '',''), Plus Digit, Lit (CHR '';'')]"

text \<open>
  \<open>n(\d+),([a-z])(\d+),([a-z])(\d+);t(\d+),N(\d+)\<close>: groups at atoms 1, 3, 4, 6, 7, 10
  and 13.
\<close>

definition header_re :: "atom list" where
  "header_re = [Lit (CHR ''n''), Plus Digit, Lit (CHR '',''), One Lower, Plus Digit,
                Lit (CHR '',''), One Lower, Plus Digit, Lit (CHR '';''), Lit (CHR ''t''),
                Plus Digit, Lit (CHR '',''), Lit (CHR ''N''), Plus Digit]"

section \<open>Parsing lines\<close>

datatype error = OverflowError | SerialException

definition parse_dms_coordinate :: "string \<Rightarrow> rat option" where
  "parse_dms_coordinate dms_str =
     (case rmatch dms_re dms_str of
        None \<Rightarrow> None
      | Some ps \<Rightarrow>
          (let sign_str = grp ps 0 1; degrees = grp ps 1 2; minutes = grp ps 3 4;
               seconds = grp ps 5 8;
               sign = (if sign_str = ''-'' then - 1 else 1)
           in Some (sign * (py_float degrees + py_float minutes / 60 + py_float seconds / 3600))))"

type_synonym point = "rat \<times> rat \<times> nat"

definition parse_track_line :: "string \<Rightarrow> point option" where
  "parse_track_line line =
     (case rmatch track_re line of
        None \<Rightarrow> None
      | Some ps \<Rightarrow>
          (let lon_str = grp ps 0 9; lat_str = grp ps 10 19; alt_str = grp ps 20 21
           in case parse_dms_coordinate lon_str of
                None \<Rightarrow> None
              | Some lon \<Rightarrow>
                  (case parse_dms_coordinate lat_str of
                     None \<Rightarrow> None
                   | Some lat \<Rightarrow> Some (lon, lat, py_int alt_str))))"

text \<open>
  The dictionary \<open>parse_header_line\<close> returns has the same six keys on every path, so it
  is a record. The field \<open>type\<close> is the string the code builds.
\<close>

record header =
  type :: string
  record_num :: nat
  latitude :: rat
  longitude :: rat
  timestamp :: string
  total_records :: nat

text \<open>
  \<open>n / 10000000.0\<close> for an \<open>int\<close> \<open>n\<close>: Python converts \<open>n\<close> to a double first and raises
  \<open>OverflowError\<close> when \<open>n\<close> rounds to \<open>2 ^ 1024\<close> or more, that is from
  \<open>2 ^ 1024 - 2 ^ 970\<close> on.
\<close>

definition float_limit :: nat where
  "float_limit = 2 ^ 1024 - 2 ^ 970"

definition int_to_float :: "nat \<Rightarrow> error + rat" where
  "int_to_float n = (if n < float_limit then Inr (of_nat n) else Inl OverflowError)"

definition scaled :: "string \<Rightarrow> error + rat" where
  "scaled v = (case int_to_float (py_int v) of Inl e \<Rightarrow> Inl e | Inr x \<Rightarrow> Inr (x / 10000000))"

definition parse_header_line :: "string \<Rightarrow> error + header option" where
  "parse_header_line line =
     (case rmatch header_re line of
        None \<Rightarrow> Inr None
      | Some ps \<Rightarrow>
          (let record_num = grp ps 1 2; field1 = grp ps 3 4; value1 = grp ps 4 5;
               field2 = grp ps 6 7; value2 = grp ps 7 8; timestamp = grp ps 10 11;
               total = grp ps 13 14
           in case
                (if field1 = ''m'' \<and> field2 = ''l'' then
                   (case scaled value1 of Inl e \<Rightarrow> Inl e
                    | Inr lat \<Rightarrow>
                        (case scaled value2 of Inl e \<Rightarrow> Inl e
                         | Inr lon \<Rightarrow> Inr (''Area'', lat, lon)))
                 else if field1 = ''l'' \<and> field2 = ''m'' then
                   (case scaled value1 of Inl e \<Rightarrow> Inl e
                    | Inr lon \<Rightarrow>
                        (case scaled value2 of Inl e \<Rightarrow> Inl e
                         | Inr lat \<Rightarrow> Inr (''Distance'', lat, lon)))
                 else if field1 = ''p'' \<and> field2 = ''p'' then
                   (case scaled value1 of Inl e \<Rightarrow> Inl e
                    | Inr lat \<Rightarrow>
                        (case scaled value2 of Inl e \<Rightarrow> Inl e
                         | Inr lon \<Rightarrow> Inr (''Waypoint'', lat, lon)))
                 else if field1 = ''k'' \<and> field2 = ''l'' then
                   (case scaled value2 of Inl e \<Rightarrow> Inl e
                    | Inr lon \<Rightarrow> Inr (''Track'', 0, lon))
                 else Inr (''Unknown('' @ field1 @ '','' @ field2 @ '')'', 0, 0))
              of
                Inl e \<Rightarrow> Inl e
              | Inr (data_type, lat, lon) \<Rightarrow>
                  (let year = py_slice timestamp 0 4; month = py_slice timestamp 4 6;
                       day = py_slice timestamp 6 8; hour = py_slice timestamp 8 10;
                       minute = py_slice timestamp 10 12
                   in Inr (Some \<lparr>type = data_type, record_num = py_int record_num,
                                  latitude = lat, longitude = lon,
                                  timestamp = year @ ''-'' @ month @ ''-'' @ day @ '' '' @ hour
                                              @ '':'' @ minute,
                                  total_records = py_int total\<rparr>))))"

section \<open>Assembling tracks\<close>

type_synonym track = "header option \<times> point list"

text \<open>
  The loop of \<open>parse_raw_data\<close> over the lines, with its three variables \<open>tracks\<close>,
  \<open>current_header\<close> and \<open>current_points\<close> as the state. An exception of
  \<open>parse_header_line\<close> leaves the loop and the function.
\<close>

fun parse_lines ::
  "string list \<Rightarrow> track list \<times> header option \<times> point list
     \<Rightarrow> error + (track list \<times> header option \<times> point list)" where
  "parse_lines [] st = Inr st"
| "parse_lines (raw # rest) (tracks, current_header, current_points) =
     (let line = strip raw
      in if line = [] \<or> line = ''!'' then
           parse_lines rest (tracks, current_header, current_points)
         else
           (case parse_header_line line of
              Inl e \<Rightarrow> Inl e
            | Inr (Some hdr) \<Rightarrow>
                parse_lines rest
                  ((if current_header \<noteq> None \<or> current_points \<noteq> []
                    then tracks @ [(current_header, current_points)] else tracks),
                   Some hdr, [])
            | Inr None \<Rightarrow>
                (case parse_track_line line of
                   Some pt \<Rightarrow> parse_lines rest (tracks, current_header, current_points @ [pt])
                 | None \<Rightarrow> parse_lines rest (tracks, current_header, current_points))))"

definition parse_raw_data :: "bytes \<Rightarrow> error + track list" where
  "parse_raw_data data =
     (let text = decode_ascii_ignore data
      in case parse_lines (split_on (CHR 0x0A) text) ([], None, []) of
           Inl e \<Rightarrow> Inl e
         | Inr (tracks, current_header, current_points) \<Rightarrow>
             Inr (if current_header \<noteq> None \<or> current_points \<noteq> []
                  then tracks @ [(current_header, current_points)] else tracks))"

section \<open>Receiving\<close>

text \<open>
  \<open>receive_data\<close> polls the serial port and reads the clock. What the port and the
  clock answer during one call is a list of events, one for each turn of the loop:
  \<open>Poll t w t'\<close> when \<open>time.time()\<close> is \<open>t\<close> in the loop condition, \<open>w\<close> are the bytes waiting
  in the input buffer (\<open>in_waiting\<close> is their number, and \<open>read(in_waiting)\<close> returns them)
  and \<open>time.time()\<close> is \<open>t'\<close> where the body reads it; \<open>Broken t\<close> when the port raises
  in that turn. A list that ends before the loop does yields \<open>None\<close>: the call has not
  returned yet. Sleeping and printing are not modelled, nor the counter of chunks that
  only printing reads.
\<close>

datatype event = Poll rat bytes rat | Broken rat

fun recv_loop :: "event list \<Rightarrow> rat \<Rightarrow> rat \<Rightarrow> rat \<Rightarrow> rat option \<Rightarrow> bytes
                    \<Rightarrow> (error + bytes) option" where
  "recv_loop [] start_time timeout idle_timeout last_data_time all_data = None"
| "recv_loop (Poll t w t' # es) start_time timeout idle_timeout last_data_time all_data =
     (if t - start_time < timeout then
        (if w \<noteq> [] then
           recv_loop es start_time timeout idle_timeout (Some t') (all_data @ w)
         else if (case last_data_time of None \<Rightarrow> False
                  | Some l \<Rightarrow> l \<noteq> 0 \<and> t' - l \<ge> idle_timeout) then
           Some (Inr all_data)
         else recv_loop es start_time timeout idle_timeout last_data_time all_data)
      else Some (Inr all_data))"
| "recv_loop (Broken t # es) start_time timeout idle_timeout last_data_time all_data =
     (if t - start_time < timeout then Some (Inl SerialException) else Some (Inr all_data))"

text \<open>
  \<open>is_open\<close> says that \<open>serial_conn\<close> is set and open, \<open>start_time\<close> is the clock
  before the loop.
\<close>

definition receive_data ::
  "bool \<Rightarrow> rat \<Rightarrow> event list \<Rightarrow> rat \<Rightarrow> rat \<Rightarrow> (error + bytes option) option" where
  "receive_data is_open start_time es timeout idle_timeout =
     (if \<not> is_open then Some (Inr None)
      else
        (case recv_loop es start_time timeout idle_timeout None [] of
           None \<Rightarrow> None
         | Some (Inl e) \<Rightarrow> Some (Inl e)
         | Some (Inr all_data) \<Rightarrow> Some (Inr (if all_data \<noteq> [] then Some all_data else None))))"

text \<open>The bytes that arrive during a list of events, and the clock at the last arrival.\<close>

fun received :: "event list \<Rightarrow> bytes" where
  "received [] = []"
| "received (Poll t w t' # es) = w @ received es"
| "received (Broken t # es) = received es"

fun last_arrival :: "event list \<Rightarrow> rat option" where
  "last_arrival [] = None"
| "last_arrival (Poll t w t' # es) =
     (case last_arrival es of Some l \<Rightarrow> Some l | None \<Rightarrow> if w \<noteq> [] then Some t' else None)"
| "last_arrival (Broken t # es) = last_arrival es"

fun silent :: "event \<Rightarrow> bool" where
  "silent (Poll t w t') = (w = [])"
| "silent (Broken t) = False"

fun loop_clock :: "event \<Rightarrow> rat" where
  "loop_clock (Poll t w t') = t"
| "loop_clock (Broken t) = t"

section \<open>Exporting\<close>

datatype output_format = GPX | KML | CSV | RAW

fun format_value :: "output_format \<Rightarrow> string" where
  "format_value GPX = ''gpx''"
| "format_value KML = ''kml''"
| "format_value CSV = ''csv''"
| "format_value RAW = ''raw''"

text \<open>
  What \<open>export_tracks\<close> does to the file system is the list of the files it writes, in
  order; \<open>created_files\<close>, which it returns, is the list of their paths. A path is the
  name of the file in \<open>output_dir\<close>. The text of a KML, GPX or CSV file is not
  modelled: such a file is the call of \<open>export_to_kml\<close>, \<open>export_to_gpx\<close> or
  \<open>export_to_csv\<close> that writes it.
\<close>

datatype file_write =
    Write_raw string bytes
  | Export_to_kml "point list" string string string
  | Export_to_gpx "point list" string string
  | Export_to_csv "point list" string

fun write_path :: "file_write \<Rightarrow> string" where
  "write_path (Write_raw path data) = path"
| "write_path (Export_to_kml points path track_name track_timestamp) = path"
| "write_path (Export_to_gpx points path track_name) = path"
| "write_path (Export_to_csv points path) = path"

fun write_points :: "file_write \<Rightarrow> point list" where
  "write_points (Write_raw path data) = []"
| "write_points (Export_to_kml points path track_name track_timestamp) = points"
| "write_points (Export_to_gpx points path track_name) = points"
| "write_points (Export_to_csv points path) = points"

text \<open>\<open>str(n)\<close>, \<open>f'{n:04d}'\<close>, \<open>s.lower()\<close> on ASCII text and \<open>s.replace(c, r)\<close>.\<close>

fun show_nat :: "nat \<Rightarrow> string" where
  "show_nat n =
     (if n < 10 then [''0123456789'' ! n]
      else show_nat (n div 10) @ [''0123456789'' ! (n mod 10)])"

declare show_nat.simps [simp del]

definition pad4 :: "nat \<Rightarrow> string" where
  "pad4 n = replicate (4 - length (show_nat n)) (CHR ''0'') @ show_nat n"

definition py_lower :: "string \<Rightarrow> string" where
  "py_lower s =
     map (\<lambda>c. case map_of (zip ''ABCDEFGHIJKLMNOPQRSTUVWXYZ'' ''abcdefghijklmnopqrstuvwxyz'') c of
                 Some l \<Rightarrow> l
               | None \<Rightarrow> c) s"

definition replace_char :: "char \<Rightarrow> string \<Rightarrow> string \<Rightarrow> string" where
  "replace_char c r s = concat (map (\<lambda>x. if x = c then r else [x]) s)"

text \<open>
  The call that writes one file: \<open>track_name\<close> and \<open>track_timestamp\<close> default to
  \<open>"GPS Track"\<close> and \<open>""\<close> in \<open>export_to_kml\<close> and \<open>export_to_gpx\<close>. \<open>export_tracks\<close> has
  returned before for \<open>RAW\<close>, and writes nothing here for it.
\<close>

fun export_one ::
  "output_format \<Rightarrow> point list \<Rightarrow> string \<Rightarrow> string \<Rightarrow> string \<Rightarrow> file_write list" where
  "export_one KML points output_file track_name track_timestamp =
     [Export_to_kml points output_file track_name track_timestamp]"
| "export_one GPX points output_file track_name track_timestamp =
     [Export_to_gpx points output_file track_name]"
| "export_one CSV points output_file track_name track_timestamp =
     [Export_to_csv points output_file]"
| "export_one RAW points output_file track_name track_timestamp = []"

text \<open>The body of the loop over \<open>enumerate(tracks)\<close>, for the track at index \<open>idx\<close>.\<close>

definition export_track :: "output_format \<Rightarrow> string \<Rightarrow> nat \<Rightarrow> track \<Rightarrow> file_write list" where
  "export_track fmt filename_prefix idx tr =
     (case tr of (hdr, points) \<Rightarrow>
        if points = [] then []
        else
          (let (file_base, track_name, track_timestamp) =
                 (case hdr of
                    Some h \<Rightarrow>
                      (let data_type = py_lower (type h);
                           track_id = ''n'' @ pad4 (record_num h);
                           ts = replace_char (CHR '':'') []
                                  (replace_char (CHR '' '') ''_''
                                     (replace_char (CHR ''-'') [] (timestamp h)))
                       in (data_type @ ''_'' @ track_id @ ''_'' @ ts,
                           type h @ '' '' @ show_nat (record_num h),
                           timestamp h))
                  | None \<Rightarrow>
                      (filename_prefix @ ''_'' @ pad4 (idx + 1),
                       ''Track '' @ show_nat (idx + 1),
                       []));
               output_file = file_base @ ''.'' @ format_value fmt
           in export_one fmt points output_file track_name track_timestamp))"

definition export_tracks ::
  "bytes \<Rightarrow> output_format \<Rightarrow> bool \<Rightarrow> string \<Rightarrow> error + file_write list" where
  "export_tracks data fmt split_by_track filename_prefix =
     (if fmt = RAW then Inr [Write_raw (filename_prefix @ ''.txt'') data]
      else
        (case parse_raw_data data of
           Inl e \<Rightarrow> Inl e
         | Inr tracks \<Rightarrow>
             if split_by_track \<and> list_ex (\<lambda>(h, p). h \<noteq> None) tracks then
               Inr (concat (map (\<lambda>(idx, tr). export_track fmt filename_prefix idx tr)
                               (enumerate 0 tracks)))
             else
               (let all_points = concat (map snd tracks);
                    output_file = filename_prefix @ ''.'' @ format_value fmt
                in Inr (export_one fmt all_points output_file ''GPS Track'' []))))"

section \<open>The grammars of the specification\<close>

text \<open>
  The texts the specification describes, written out: a DMS token
  \<open><sign><degrees>d<minutes>'<seconds>.<fraction>"\<close>, a coordinate line
  \<open><DMS>,<DMS>,<digits>;\<close> and a header line
  \<open>n<digits>,<letter><digits>,<letter><digits>;t<digits>,N<digits>\<close>, and the value
  \<open>sign * (degrees + minutes/60 + seconds/3600)\<close> of a DMS token.
\<close>

definition dms_text :: "char \<Rightarrow> string \<Rightarrow> string \<Rightarrow> string \<Rightarrow> string \<Rightarrow> string" where
  "dms_text sg deg mins secs fr = sg # deg @ ''d'' @ mins @ [apos] @ secs @ ''.'' @ fr @ [dquote]"

definition dms_value :: "char \<Rightarrow> string \<Rightarrow> string \<Rightarrow> string \<Rightarrow> string \<Rightarrow> rat" where
  "dms_value sg deg mins secs fr =
     (if sg = CHR ''-'' then - 1 else 1)
     * (of_nat (py_int deg) + of_nat (py_int mins) / 60
        + (of_nat (py_int secs) + of_nat (py_int fr) / 10 ^ length fr) / 3600)"

definition header_text ::
  "string \<Rightarrow> char \<Rightarrow> string \<Rightarrow> char \<Rightarrow> string \<Rightarrow> string \<Rightarrow> string \<Rightarrow> string" where
  "header_text rn f1 v1 f2 v2 ts tot =
     ''n'' @ rn @ '','' @ f1 # v1 @ '','' @ f2 # v2 @ '';t'' @ ts @ '',N'' @ tot"

definition coord_text ::
  "char \<Rightarrow> string \<Rightarrow> string \<Rightarrow> string \<Rightarrow> string
     \<Rightarrow> char \<Rightarrow> string \<Rightarrow> string \<Rightarrow> string \<Rightarrow> string \<Rightarrow> string \<Rightarrow> string" where
  "coord_text sg deg mins secs fr sg' deg' mins' secs' fr' alt =
     dms_text sg deg mins secs fr @ '','' @ dms_text sg' deg' mins' secs' fr' @ '','' @ alt @ '';''"

text \<open>What one atom of a pattern can consume.\<close>

fun piece_ok :: "atom \<Rightarrow> string \<Rightarrow> bool" where
  "piece_ok (Lit c) p = (p = [c])"
| "piece_ok (One k) p = (length p = 1 \<and> in_cls k (hd p))"
| "piece_ok (Plus k) p = (p \<noteq> [] \<and> list_all (in_cls k) p)"

text \<open>
  The lines \<open>parse_raw_data\<close> looks at: the lines of the decoded buffer, stripped,
  without the empty ones and the sentinel \<open>!\<close>.
\<close>

definition tokenize :: "bytes \<Rightarrow> string list" where
  "tokenize data =
     filter (\<lambda>l. l \<noteq> [] \<and> l \<noteq> ''!'') (map strip (split_on (CHR 0x0A) (decode_ascii_ignore data)))"


text \<open>A line that matches neither the header nor the coordinate grammar.\<close>

definition unrecognised :: "string \<Rightarrow> bool" where
  "unrecognised l = (parse_header_line l = Inr None \<and> parse_track_line l = None)"

section \<open>Properties of the matcher\<close>

text \<open>
  A repetition followed by a literal outside its class, or by the end of the pattern,
  never backtracks: it takes the longest run of the class.
\<close>

lemma plus_try_Lit_None:
  "\<not> in_cls k c \<Longrightarrow> n < length (takeWhile (in_cls k) s) \<Longrightarrow> plus_try (Lit c # as) s n = None"
proof (induction n)
  case 0
  then show ?case by simp
next
  case (Suc n)
  let ?tw = "takeWhile (in_cls k) s"
  from Suc.prems have lt: "Suc n < length ?tw" by simp
  have len: "length ?tw \<le> length s" by (rule length_takeWhile_le)
  with lt have d: "drop (Suc n) s = s ! Suc n # drop (Suc (Suc n)) s"
    by (simp add: Cons_nth_drop_Suc)
  have "s ! Suc n = ?tw ! Suc n" using lt by (simp add: takeWhile_nth)
  moreover have "?tw ! Suc n \<in> set ?tw" using lt by simp
  ultimately have "in_cls k (s ! Suc n)" by (metis set_takeWhileD)
  with Suc.prems(1) have "s ! Suc n \<noteq> c" by auto
  with d have "rmatch (Lit c # as) (drop (Suc n) s) = None" by simp
  moreover have "plus_try (Lit c # as) s n = None" using Suc by simp
  ultimately show ?case by simp
qed

lemma rmatch_Plus_Lit:
  assumes "\<not> in_cls k c"
  shows "rmatch (Plus k # Lit c # as) s =
     (if takeWhile (in_cls k) s = [] then None
      else map_option ((#) (takeWhile (in_cls k) s)) (rmatch (Lit c # as) (dropWhile (in_cls k) s)))"
proof (cases "length (takeWhile (in_cls k) s)")
  case 0
  then show ?thesis by simp
next
  case (Suc m)
  have t: "take (Suc m) s = takeWhile (in_cls k) s"
    using Suc by (metis takeWhile_eq_take)
  have d: "drop (Suc m) s = dropWhile (in_cls k) s"
    using Suc by (metis dropWhile_eq_drop)
  have n: "plus_try (Lit c # as) s m = None"
    by (rule plus_try_Lit_None [OF assms]) (simp add: Suc)
  have ne: "takeWhile (in_cls k) s \<noteq> []" using Suc by auto
  show ?thesis
    using Suc t d n ne by (simp split: option.splits del: rmatch.simps(2))
qed

lemma rmatch_Plus_end:
  "rmatch [Plus k] s =
     (if takeWhile (in_cls k) s = [] then None else Some [takeWhile (in_cls k) s])"
proof (cases "length (takeWhile (in_cls k) s)")
  case 0
  then show ?thesis by simp
next
  case (Suc m)
  have t: "take (Suc m) s = takeWhile (in_cls k) s"
    using Suc by (metis takeWhile_eq_take)
  have ne: "takeWhile (in_cls k) s \<noteq> []" using Suc by auto
  show ?thesis using Suc t ne by simp
qed

declare rmatch.simps(4) [simp del]

lemma in_cls_eq [simp]:
  "in_cls Digit = is_digit" "in_cls Lower = is_lower" "in_cls Sign = is_sign"
  by (rule ext, simp)+

lemma takeWhile_digits:
  "list_all is_digit ds \<Longrightarrow> \<not> is_digit c \<Longrightarrow> takeWhile is_digit (ds @ c # r) = ds"
  by (induction ds) simp_all

lemma dropWhile_digits:
  "list_all is_digit ds \<Longrightarrow> \<not> is_digit c \<Longrightarrow> dropWhile is_digit (ds @ c # r) = c # r"
  by (induction ds) simp_all

lemma takeWhile_digits_end:
  "list_all is_digit ds \<Longrightarrow> takeWhile is_digit (ds @ r) = ds @ takeWhile is_digit r"
  by (induction ds) simp_all

lemma not_digit_simps:
  "\<not> is_digit (CHR ''d'')" "\<not> is_digit apos" "\<not> is_digit (CHR ''.'')" "\<not> is_digit dquote"
  "\<not> is_digit (CHR '','')" "\<not> is_digit (CHR '';'')"
  by (simp_all add: is_digit_def apos_def dquote_def)

lemma rmatch_dms_atoms:
  assumes "is_sign sg" "digits deg" "digits mins" "digits secs" "digits fr"
  shows "rmatch (dms_atoms @ as) (dms_text sg deg mins secs fr @ rest) =
           map_option ((@) [[sg], deg, ''d'', mins, [apos], secs, ''.'', fr, [dquote]])
             (rmatch as rest)"
  using assms
  by (cases "rmatch as rest")
     (simp_all add: dms_atoms_def dms_text_def digits_def rmatch_Plus_Lit not_digit_simps
        takeWhile_digits dropWhile_digits)

lemma rmatch_sound:
  "rmatch as s = Some ps \<Longrightarrow> list_all2 piece_ok as ps \<and> prefix (concat ps) s"
  "plus_try as s n = Some ps \<Longrightarrow> n \<le> length (takeWhile (in_cls k) s) \<Longrightarrow>
     piece_ok (Plus k) (hd ps) \<and> list_all2 piece_ok as (tl ps) \<and> ps \<noteq> [] \<and> prefix (concat ps) s"
proof (induction as s and as s n arbitrary: ps and ps k rule: rmatch_plus_try.induct)
  case (1 s)
  then show ?case by simp
next
  case (2 c as s)
  then show ?case by (auto split: list.splits if_splits)
next
  case (3 k as s)
  then show ?case by (auto split: list.splits if_splits)
next
  case (4 k as s)
  from 4(2) have "plus_try as s (length (takeWhile (in_cls k) s)) = Some ps"
    by (simp add: rmatch.simps(4))
  from 4(1) [OF this, of k] show ?case
    by (cases ps) auto
next
  case (5 as s)
  then show ?case by simp
next
  case (6 as s n)
  show ?case
  proof (cases "rmatch as (drop (Suc n) s)")
    case None
    with 6(3) have "plus_try as s n = Some ps" by simp
    from 6(2) [OF None this, of k] 6(4) show ?thesis by simp
  next
    case (Some qs)
    with 6(3) have ps: "ps = take (Suc n) s # qs" by simp
    from 6(1) [OF Some] have q: "list_all2 piece_ok as qs" "prefix (concat qs) (drop (Suc n) s)"
      by simp_all
    let ?tw = "takeWhile (in_cls k) s"
    have le: "Suc n \<le> length ?tw" using 6(4) .
    have "take (Suc n) s = take (Suc n) ?tw"
      using le by (metis takeWhile_eq_take take_take min.absorb1 length_takeWhile_le order_trans take_all_iff)
    then have all: "list_all (in_cls k) (take (Suc n) s)"
      by (metis list_all_iff in_set_takeD set_takeWhileD)
    have ne: "take (Suc n) s \<noteq> []"
      using le length_takeWhile_le [of "in_cls k" s] by auto
    have "prefix (take (Suc n) s @ concat qs) (take (Suc n) s @ drop (Suc n) s)"
      using q(2) by (simp only: same_prefix_prefix)
    then have "prefix (concat ps) s" using ps by simp
    with ps q all ne show ?thesis by simp
  qed
qed

section \<open>Coordinates\<close>

lemma py_float_digits:
  "list_all is_digit ds \<Longrightarrow> py_float ds = of_nat (py_int ds)"
proof -
  assume "list_all is_digit ds"
  then have "dropWhile is_digit ds = []" by (simp add: list_all_iff)
  then show ?thesis by (simp add: py_float_def del: dropWhile_eq_Nil_conv)
qed

lemma py_float_decimal:
  "list_all is_digit ds \<Longrightarrow> py_float (ds @ ''.'' @ fr) = of_nat (py_int ds) + of_nat (py_int fr) / 10 ^ length fr"
  by (simp add: py_float_def takeWhile_digits dropWhile_digits not_digit_simps)

lemma parse_dms_coordinate_text:
  assumes "is_sign sg" "digits deg" "digits mins" "digits secs" "digits fr"
  shows "parse_dms_coordinate (dms_text sg deg mins secs fr @ rest) = Some (dms_value sg deg mins secs fr)"
proof -
  have m: "rmatch dms_re (dms_text sg deg mins secs fr @ rest)
             = Some [[sg], deg, ''d'', mins, [apos], secs, ''.'', fr, [dquote]]"
    using rmatch_dms_atoms [OF assms, of "[]" rest] by (simp add: dms_re_def)
  show ?thesis
    using assms
    by (simp add: parse_dms_coordinate_def m grp_def dms_value_def py_float_digits
          py_float_decimal [simplified] digits_def)
qed

lemma list_all2_ConsE:
  assumes "list_all2 P (a # as) ps"
  obtains p qs where "ps = p # qs" "P a p" "list_all2 P as qs"
  using assms by (auto simp: list_all2_Cons1)





section \<open>Lines\<close>

lemma not_digit_more:
  "\<not> is_digit (CHR ''t'')" "\<not> is_digit (CHR ''N'')" "\<not> is_digit (CHR ''n'')"
  by (simp_all add: is_digit_def)

lemma rmatch_header_re:
  assumes "digits rn" "is_lower f1" "digits v1" "is_lower f2" "digits v2" "digits ts" "digits tot"
  shows "rmatch header_re (header_text rn f1 v1 f2 v2 ts tot @ rest) =
           Some [''n'', rn, '','', [f1], v1, '','', [f2], v2, '';'', ''t'', ts, '','', ''N'',
                 tot @ takeWhile is_digit rest]"
  using assms
  by (simp add: header_re_def header_text_def digits_def rmatch_Plus_Lit rmatch_Plus_end
        not_digit_simps takeWhile_digits dropWhile_digits takeWhile_digits_end)

lemma parse_header_line_text:
  assumes "digits rn" "is_lower f1" "digits v1" "is_lower f2" "digits v2" "digits ts" "digits tot"
  shows "parse_header_line (header_text rn f1 v1 f2 v2 ts tot @ rest) =
    (case
       (if f1 = CHR ''m'' \<and> f2 = CHR ''l'' then
          (case scaled v1 of Inl e \<Rightarrow> Inl e
           | Inr lat \<Rightarrow> (case scaled v2 of Inl e \<Rightarrow> Inl e | Inr lon \<Rightarrow> Inr (''Area'', lat, lon)))
        else if f1 = CHR ''l'' \<and> f2 = CHR ''m'' then
          (case scaled v1 of Inl e \<Rightarrow> Inl e
           | Inr lon \<Rightarrow> (case scaled v2 of Inl e \<Rightarrow> Inl e | Inr lat \<Rightarrow> Inr (''Distance'', lat, lon)))
        else if f1 = CHR ''p'' \<and> f2 = CHR ''p'' then
          (case scaled v1 of Inl e \<Rightarrow> Inl e
           | Inr lat \<Rightarrow> (case scaled v2 of Inl e \<Rightarrow> Inl e | Inr lon \<Rightarrow> Inr (''Waypoint'', lat, lon)))
        else if f1 = CHR ''k'' \<and> f2 = CHR ''l'' then
          (case scaled v2 of Inl e \<Rightarrow> Inl e | Inr lon \<Rightarrow> Inr (''Track'', 0, lon))
        else Inr (''Unknown('' @ [f1] @ '','' @ [f2] @ '')'', 0, 0))
     of
       Inl e \<Rightarrow> Inl e
     | Inr (k, lat, lon) \<Rightarrow>
         Inr (Some \<lparr>type = k, record_num = py_int rn, latitude = lat, longitude = lon,
                     timestamp = py_slice ts 0 4 @ ''-'' @ py_slice ts 4 6 @ ''-'' @ py_slice ts 6 8
                                 @ '' '' @ py_slice ts 8 10 @ '':'' @ py_slice ts 10 12,
                     total_records = py_int (tot @ takeWhile is_digit rest)\<rparr>))"
  by (simp add: parse_header_line_def rmatch_header_re [OF assms] grp_def Let_def
        split: sum.splits prod.splits)

lemma rmatch_track_re:
  assumes "is_sign sg" "digits deg" "digits mins" "digits secs" "digits fr"
    and "is_sign sg'" "digits deg'" "digits mins'" "digits secs'" "digits fr'" and "digits alt"
  shows "rmatch track_re (coord_text sg deg mins secs fr sg' deg' mins' secs' fr' alt @ rest) =
           Some ([[sg], deg, ''d'', mins, [apos], secs, ''.'', fr, [dquote]] @ ['',''] @
                 [[sg'], deg', ''d'', mins', [apos], secs', ''.'', fr', [dquote]] @ ['','', alt, '';''])"
proof -
  have t: "rmatch [Lit (CHR '',''), Plus Digit, Lit (CHR '';'')] ('','' @ alt @ '';'' @ rest)
             = Some ['','', alt, '';'']"
    using assms(11)
    by (simp add: digits_def rmatch_Plus_Lit not_digit_simps takeWhile_digits dropWhile_digits)
  have "rmatch (dms_atoms @ [Lit (CHR '',''), Plus Digit, Lit (CHR '';'')])
          (dms_text sg' deg' mins' secs' fr' @ '','' @ alt @ '';'' @ rest)
        = Some ([[sg'], deg', ''d'', mins', [apos], secs', ''.'', fr', [dquote]] @ ['','', alt, '';''])"
    using rmatch_dms_atoms [OF assms(6-10)] t by simp
  then have "rmatch (Lit (CHR '','') # dms_atoms @ [Lit (CHR '',''), Plus Digit, Lit (CHR '';'')])
          ('','' @ dms_text sg' deg' mins' secs' fr' @ '','' @ alt @ '';'' @ rest)
        = Some (['',''] @ [[sg'], deg', ''d'', mins', [apos], secs', ''.'', fr', [dquote]] @ ['','', alt, '';''])"
    by simp
  then show ?thesis
    using rmatch_dms_atoms [OF assms(1-5)]
    by (simp add: track_re_def coord_text_def)
qed

lemma parse_track_line_text:
  assumes "is_sign sg" "digits deg" "digits mins" "digits secs" "digits fr"
    and "is_sign sg'" "digits deg'" "digits mins'" "digits secs'" "digits fr'" and "digits alt"
  shows "parse_track_line (coord_text sg deg mins secs fr sg' deg' mins' secs' fr' alt @ rest) =
           Some (dms_value sg deg mins secs fr, dms_value sg' deg' mins' secs' fr', py_int alt)"
proof -
  let ?ps = "[[sg], deg, ''d'', mins, [apos], secs, ''.'', fr, [dquote]] @ ['',''] @
                 [[sg'], deg', ''d'', mins', [apos], secs', ''.'', fr', [dquote]] @ ['','', alt, '';'']"
  have g: "grp ?ps 0 9 = dms_text sg deg mins secs fr" "grp ?ps 10 19 = dms_text sg' deg' mins' secs' fr'"
    "grp ?ps 20 21 = alt"
    by (simp_all add: grp_def dms_text_def)
  have a: "parse_dms_coordinate (dms_text sg deg mins secs fr) = Some (dms_value sg deg mins secs fr)"
    using parse_dms_coordinate_text [OF assms(1-5), of "[]"] by simp
  have b: "parse_dms_coordinate (dms_text sg' deg' mins' secs' fr') = Some (dms_value sg' deg' mins' secs' fr')"
    using parse_dms_coordinate_text [OF assms(6-10), of "[]"] by simp
  show ?thesis
    unfolding parse_track_line_def rmatch_track_re [OF assms] option.case Let_def g a b ..
qed

lemma parse_header_line_coord:
  assumes "is_sign sg"
  shows "parse_header_line (coord_text sg deg mins secs fr sg' deg' mins' secs' fr' alt @ rest) = Inr None"
  using assms
  by (auto simp add: parse_header_line_def header_re_def coord_text_def dms_text_def is_sign_def)

lemma parse_track_line_header:
  "parse_track_line (header_text rn f1 v1 f2 v2 ts tot @ rest) = None"
  by (simp add: parse_track_line_def track_re_def dms_atoms_def header_text_def is_sign_def)

lemma pieces_header:
  assumes "list_all2 piece_ok header_re ps"
  shows "\<exists>rn f1 v1 f2 v2 ts tot.
           ps = [''n'', rn, '','', [f1], v1, '','', [f2], v2, '';'', ''t'', ts, '','', ''N'', tot]
           \<and> digits rn \<and> is_lower f1 \<and> digits v1 \<and> is_lower f2 \<and> digits v2 \<and> digits ts
           \<and> digits tot"
  using assms unfolding header_re_def
  apply (elim list_all2_ConsE)
  apply (simp only: list_all2_Nil)
  apply (simp add: digits_def length_Suc_conv)
  apply (elim exE conjE)
  apply simp
  done

lemma rmatch_header_shape:
  assumes "rmatch header_re l = Some ps"
  shows "\<exists>rn f1 v1 f2 v2 ts tot rest.
           l = header_text rn f1 v1 f2 v2 ts tot @ rest \<and> digits rn \<and> is_lower f1 \<and> digits v1
           \<and> is_lower f2 \<and> digits v2 \<and> digits ts \<and> digits tot"
proof -
  from rmatch_sound(1) [OF assms] have a: "list_all2 piece_ok header_re ps"
    and p: "prefix (concat ps) l"
    by simp_all
  from p obtain rest where l: "l = concat ps @ rest" by (auto simp: prefix_def)
  from pieces_header [OF a] obtain rn f1 v1 f2 v2 ts tot where
    ps: "ps = [''n'', rn, '','', [f1], v1, '','', [f2], v2, '';'', ''t'', ts, '','', ''N'', tot]" and
    ok: "digits rn" "is_lower f1" "digits v1" "is_lower f2" "digits v2" "digits ts" "digits tot"
    by (elim exE conjE)
  have "l = header_text rn f1 v1 f2 v2 ts tot @ rest"
    by (simp add: l ps header_text_def)
  with ok show ?thesis by (intro exI conjI)
qed

lemma parse_header_line_shape:
  assumes "parse_header_line l \<noteq> Inr None"
  shows "\<exists>rn f1 v1 f2 v2 ts tot rest.
           l = header_text rn f1 v1 f2 v2 ts tot @ rest \<and> digits rn \<and> is_lower f1 \<and> digits v1
           \<and> is_lower f2 \<and> digits v2 \<and> digits ts \<and> digits tot"
proof (cases "rmatch header_re l")
  case None
  with assms show ?thesis by (simp add: parse_header_line_def)
next
  case (Some ps)
  then show ?thesis by (rule rmatch_header_shape)
qed

lemma parse_header_line_timestamp:
  assumes "digits rn" "is_lower f1" "digits v1" "is_lower f2" "digits v2" "digits ts" "digits tot"
    and "parse_header_line (header_text rn f1 v1 f2 v2 ts tot @ rest) = Inr (Some h)"
  shows "timestamp h = py_slice ts 0 4 @ ''-'' @ py_slice ts 4 6 @ ''-'' @ py_slice ts 6 8
                         @ '' '' @ py_slice ts 8 10 @ '':'' @ py_slice ts 10 12"
  using assms(8) unfolding parse_header_line_text [OF assms(1-7)]
  by (auto split: sum.splits if_splits)

lemma scaled_in_range:
  "py_int v < float_limit \<Longrightarrow> scaled v = Inr (of_nat (py_int v) / 10000000)"
  by (simp add: scaled_def int_to_float_def)

lemma scaled_overflow:
  "float_limit \<le> py_int v \<Longrightarrow> scaled v = Inl OverflowError"
  by (simp add: scaled_def int_to_float_def)

lemma py_int_append:
  "py_int (ds @ es) = py_int ds * 10 ^ length es + py_int es"
proof (induction es rule: rev_induct)
  case Nil
  then show ?case by (simp add: py_int_def)
next
  case (snoc e es)
  have "py_int (ds @ es @ [e]) = 10 * py_int (ds @ es) + digit_val e"
    by (simp add: py_int_def)
  also have "\<dots> = py_int ds * 10 ^ length (es @ [e]) + (10 * py_int es + digit_val e)"
    by (simp add: snoc algebra_simps)
  also have "10 * py_int es + digit_val e = py_int (es @ [e])"
    by (simp add: py_int_def)
  finally show ?case by simp
qed

lemma py_int_zeros:
  "py_int (replicate n (CHR ''0'')) = 0"
proof (induction n)
  case 0
  then show ?case by (simp add: py_int_def)
next
  case (Suc n)
  have "replicate (Suc n) (CHR ''0'') = replicate n (CHR ''0'') @ ''0''"
    by (simp add: replicate_append_same)
  moreover have "py_int ''0'' = 0" by (simp add: py_int_def digit_val_def)
  ultimately show ?case using Suc by (simp only: py_int_append)
qed

lemma float_limit_le: "float_limit \<le> 10 ^ 309"
  by (simp add: float_limit_def)

lemma small_in_range: "n < 10 ^ 300 \<Longrightarrow> n < float_limit"
proof -
  have "(10::nat) ^ 300 \<le> float_limit" by (simp add: float_limit_def)
  then show "n < 10 ^ 300 \<Longrightarrow> n < float_limit" by simp
qed

lemma overflow_line:
  "parse_header_line (''n1,m1'' @ replicate 309 (CHR ''0'') @ '',l1;t202401151030,N5'') = Inl OverflowError"
proof -
  let ?v = "''1'' @ replicate 309 (CHR ''0'')"
  have d: "digits ''1''" "is_lower (CHR ''m'')" "digits ?v" "is_lower (CHR ''l'')"
    "digits ''202401151030''" "digits ''5''"
    by (simp_all add: digits_def is_digit_def is_lower_def list_all_iff)
  have "py_int ''1'' = 1" by (simp add: py_int_def digit_val_def)
  then have "py_int ?v = 10 ^ 309"
    by (simp only: py_int_append py_int_zeros length_replicate)
  then have o: "scaled ?v = Inl OverflowError"
    using float_limit_le by (simp add: scaled_overflow)
  have t: "''n1,m1'' @ replicate 309 (CHR ''0'') @ '',l1;t202401151030,N5''
           = header_text ''1'' (CHR ''m'') ?v (CHR ''l'') ''1'' ''202401151030'' ''5'' @ []"
    by (simp add: header_text_def)
  show ?thesis
    unfolding t parse_header_line_text [OF d(1,2,3,4,1,5,6)]
    using o by simp
qed

lemma parse_header_line_table:
  assumes "digits rn" "is_lower f1" "digits v1" "is_lower f2" "digits v2" "digits ts" "digits tot"
    and "py_int v1 < float_limit" "py_int v2 < float_limit"
  shows "\<exists>h. parse_header_line (header_text rn f1 v1 f2 v2 ts tot @ rest) = Inr (Some h) \<and>
    (type h, latitude h, longitude h) =
      (if f1 = CHR ''m'' \<and> f2 = CHR ''l'' then
         (''Area'', of_nat (py_int v1) / 10000000, of_nat (py_int v2) / 10000000)
       else if f1 = CHR ''l'' \<and> f2 = CHR ''m'' then
         (''Distance'', of_nat (py_int v2) / 10000000, of_nat (py_int v1) / 10000000)
       else if f1 = CHR ''p'' \<and> f2 = CHR ''p'' then
         (''Waypoint'', of_nat (py_int v1) / 10000000, of_nat (py_int v2) / 10000000)
       else if f1 = CHR ''k'' \<and> f2 = CHR ''l'' then
         (''Track'', 0, of_nat (py_int v2) / 10000000)
       else (''Unknown('' @ [f1] @ '','' @ [f2] @ '')'', 0, 0))"
  unfolding parse_header_line_text [OF assms(1-7)]
  by (simp add: scaled_in_range assms(8,9))

text \<open>
  C2. The line \<open>n1,m1000...0,l1;t202401151030,N5\<close>, whose first value is \<open>1\<close> followed by
  309 zeros, matches the header grammar with the field pair \<open>(m,l)\<close>; \<open>parse_header_line\<close>
  raises \<open>OverflowError\<close> on it, where the table gives kind Area with latitude
  \<open>value1/10,000,000\<close>.
\<close>

theorem parse_header_line_area_overflow:
  "parse_header_line (''n1,m1'' @ replicate 309 (CHR ''0'') @ '',l1;t202401151030,N5'')
     = Inl OverflowError"
  by (rule overflow_line)

text \<open>
  C3, as the code has it. A line is parsed to a header only when it starts with
  \<open>n<digits>,<letter><digits>,<letter><digits>;t<digits>,N<digits>\<close>, the timestamp being
  one or more digits, and the timestamp of the header is made of the slices \<open>[0:4]\<close>,
  \<open>[4:6]\<close>, \<open>[6:8]\<close>, \<open>[8:10]\<close> and \<open>[10:12]\<close> of these digits, unchecked; a line
  that starts so is never taken for another kind of line.
\<close>

theorem parse_header_line_only_if:
  "(parse_header_line l = Inr (Some h) \<longrightarrow>
      (\<exists>rn f1 v1 f2 v2 ts tot rest.
         l = header_text rn f1 v1 f2 v2 ts tot @ rest \<and> digits rn \<and> is_lower f1 \<and> digits v1
         \<and> is_lower f2 \<and> digits v2 \<and> digits ts \<and> digits tot
         \<and> timestamp h = py_slice ts 0 4 @ ''-'' @ py_slice ts 4 6 @ ''-'' @ py_slice ts 6 8
                            @ '' '' @ py_slice ts 8 10 @ '':'' @ py_slice ts 10 12))
   \<and> (digits rn' \<and> is_lower f1' \<and> digits v1' \<and> is_lower f2' \<and> digits v2' \<and> digits ts'
        \<and> digits tot' \<longrightarrow>
        parse_header_line (header_text rn' f1' v1' f2' v2' ts' tot' @ rest') \<noteq> Inr None)"
proof (intro conjI impI)
  assume p: "parse_header_line l = Inr (Some h)"
  then have "parse_header_line l \<noteq> Inr None" by simp
  from parse_header_line_shape [OF this] obtain rn f1 v1 f2 v2 ts tot rest where
    l: "l = header_text rn f1 v1 f2 v2 ts tot @ rest" and
    ok: "digits rn" "is_lower f1" "digits v1" "is_lower f2" "digits v2" "digits ts" "digits tot"
    by (elim exE conjE)
  from parse_header_line_timestamp [OF ok p [unfolded l]]
  have "timestamp h = py_slice ts 0 4 @ ''-'' @ py_slice ts 4 6 @ ''-'' @ py_slice ts 6 8
                            @ '' '' @ py_slice ts 8 10 @ '':'' @ py_slice ts 10 12" .
  with l ok show "\<exists>rn f1 v1 f2 v2 ts tot rest.
         l = header_text rn f1 v1 f2 v2 ts tot @ rest \<and> digits rn \<and> is_lower f1 \<and> digits v1
         \<and> is_lower f2 \<and> digits v2 \<and> digits ts \<and> digits tot
         \<and> timestamp h = py_slice ts 0 4 @ ''-'' @ py_slice ts 4 6 @ ''-'' @ py_slice ts 6 8
                            @ '' '' @ py_slice ts 8 10 @ '':'' @ py_slice ts 10 12"
    by (intro exI conjI)
next
  assume "digits rn' \<and> is_lower f1' \<and> digits v1' \<and> is_lower f2' \<and> digits v2' \<and> digits ts'
        \<and> digits tot'"
  then have ok: "digits rn'" "is_lower f1'" "digits v1'" "is_lower f2'" "digits v2'" "digits ts'"
    "digits tot'"
    by simp_all
  show "parse_header_line (header_text rn' f1' v1' f2' v2' ts' tot' @ rest') \<noteq> Inr None"
    unfolding parse_header_line_text [OF ok]
    by (simp split: sum.splits)
qed

lemma short_timestamp_line:
  "parse_header_line ''n1,m1,l1;t2024,N5''
     = Inr (Some \<lparr>type = ''Area'', record_num = 1, latitude = 1 / 10000000,
                   longitude = 1 / 10000000, timestamp = ''2024-- :'', total_records = 5\<rparr>)"
proof -
  have d: "digits ''1''" "is_lower (CHR ''m'')" "is_lower (CHR ''l'')" "digits ''2024''" "digits ''5''"
    by (simp_all add: digits_def is_digit_def is_lower_def)
  have v: "py_int ''1'' = 1" "py_int ''5'' = 5" by (simp_all add: py_int_def digit_val_def)
  have s: "scaled ''1'' = Inr (1 / 10000000)"
    using scaled_in_range [of "''1''"] small_in_range [of 1] by (simp add: v)
  have t: "''n1,m1,l1;t2024,N5'' = header_text ''1'' (CHR ''m'') ''1'' (CHR ''l'') ''1'' ''2024'' ''5'' @ []"
    by (simp add: header_text_def)
  show ?thesis
    unfolding t parse_header_line_text [OF d(1,2,1,3,1,4,5)]
    using s v by (simp add: py_slice_def)
qed

text \<open>
  C3 as stated asks for exactly twelve timestamp digits: a line with four of them is
  parsed to a header all the same, with the month, day, hour and minute empty.
\<close>

theorem parse_header_line_short_timestamp:
  "parse_header_line ''n1,m1,l1;t2024,N5''
     = Inr (Some \<lparr>type = ''Area'', record_num = 1, latitude = 1 / 10000000,
                   longitude = 1 / 10000000, timestamp = ''2024-- :'', total_records = 5\<rparr>)"
  by (rule short_timestamp_line)

lemma unchecked_timestamp_line:
  "parse_header_line ''n1,x1,y1;t999913456789,N5''
     = Inr (Some \<lparr>type = ''Unknown(x,y)'', record_num = 1, latitude = 0, longitude = 0,
                   timestamp = ''9999-13-45 67:89'', total_records = 5\<rparr>)"
proof -
  have d: "digits ''1''" "is_lower (CHR ''x'')" "is_lower (CHR ''y'')" "digits ''999913456789''"
    "digits ''5''"
    by (simp_all add: digits_def is_digit_def is_lower_def)
  have v: "py_int ''1'' = 1" "py_int ''5'' = 5" by (simp_all add: py_int_def digit_val_def)
  have t: "''n1,x1,y1;t999913456789,N5''
             = header_text ''1'' (CHR ''x'') ''1'' (CHR ''y'') ''1'' ''999913456789'' ''5'' @ []"
    by (simp add: header_text_def)
  show ?thesis
    unfolding t parse_header_line_text [OF d(1,2,1,3,1,4,5)]
    using v by (simp add: py_slice_def)
qed

theorem parse_header_line_only_if_witness:
  "(\<exists>rn f1 v1 f2 v2 ts tot rest.
      ''n1,x1,y1;t999913456789,N5'' = header_text rn f1 v1 f2 v2 ts tot @ rest \<and> digits rn
      \<and> is_lower f1 \<and> digits v1 \<and> is_lower f2 \<and> digits v2 \<and> digits ts \<and> digits tot
      \<and> ''9999-13-45 67:89'' = py_slice ts 0 4 @ ''-'' @ py_slice ts 4 6 @ ''-'' @ py_slice ts 6 8
                                  @ '' '' @ py_slice ts 8 10 @ '':'' @ py_slice ts 10 12)
   \<and> parse_header_line ''n1,m1,l1;t2024,N5zz'' \<noteq> Inr None"
proof -
  let ?h = "\<lparr>type = ''Unknown(x,y)'', record_num = 1, latitude = 0, longitude = 0,
             timestamp = ''9999-13-45 67:89'', total_records = 5\<rparr>"
  have d: "digits ''1'' \<and> is_lower (CHR ''m'') \<and> digits ''1'' \<and> is_lower (CHR ''l'') \<and> digits ''1''
           \<and> digits ''2024'' \<and> digits ''5''"
    by (simp add: digits_def is_digit_def is_lower_def)
  have t: "header_text ''1'' (CHR ''m'') ''1'' (CHR ''l'') ''1'' ''2024'' ''5'' @ ''zz''
             = ''n1,m1,l1;t2024,N5zz''"
    by (simp add: header_text_def)
  from parse_header_line_only_if [of "''n1,x1,y1;t999913456789,N5''" ?h
         "''1''" "CHR ''m''" "''1''" "CHR ''l''" "''1''" "''2024''" "''5''" "''zz''"]
  have a: "(\<exists>rn f1 v1 f2 v2 ts tot rest.
      ''n1,x1,y1;t999913456789,N5'' = header_text rn f1 v1 f2 v2 ts tot @ rest \<and> digits rn
      \<and> is_lower f1 \<and> digits v1 \<and> is_lower f2 \<and> digits v2 \<and> digits ts \<and> digits tot
      \<and> timestamp ?h = py_slice ts 0 4 @ ''-'' @ py_slice ts 4 6 @ ''-'' @ py_slice ts 6 8
                                  @ '' '' @ py_slice ts 8 10 @ '':'' @ py_slice ts 10 12)"
    and b: "parse_header_line (header_text ''1'' (CHR ''m'') ''1'' (CHR ''l'') ''1'' ''2024'' ''5'' @ ''zz'')
              \<noteq> Inr None"
    using unchecked_timestamp_line d by blast+
  from a b show ?thesis unfolding t by simp
qed



section \<open>Tracks\<close>

lemma strip_ends:
  "strip s = [] \<or> (\<not> is_space (hd (strip s)) \<and> \<not> is_space (last (strip s)))"
proof (cases "dropWhile is_space s")
  case Nil
  have "strip s = []" unfolding strip_def Nil by simp
  then show ?thesis ..
next
  case (Cons x xs)
  then have x: "\<not> is_space x" by (metis hd_dropWhile list.sel(1) list.distinct(1))
  let ?r = "dropWhile is_space (rev xs @ [x])"
  have r: "?r \<noteq> []" using x by (simp add: dropWhile_append)
  then have h: "\<not> is_space (hd ?r)" by (rule hd_dropWhile)
  have l: "last ?r = x" using x
    by (induction xs rule: rev_induct) (auto simp: dropWhile_append3)
  have s: "strip s = rev ?r" by (simp add: strip_def Cons)
  show ?thesis using r h l x by (simp add: s hd_rev last_rev)
qed

lemma strip_strip: "strip (strip s) = strip s"
proof (cases "strip s = []")
  case True
  show ?thesis unfolding True by (simp add: strip_def)
next
  case False
  with strip_ends [of s] have h: "\<not> is_space (hd (strip s))" and l: "\<not> is_space (last (strip s))"
    by simp_all
  from False h have a: "dropWhile is_space (strip s) = strip s"
    by (cases "strip s") simp_all
  from False l have b: "dropWhile is_space (rev (strip s)) = rev (strip s)"
    by (cases "rev (strip s)") (simp_all add: last_rev [symmetric] hd_rev)
  show ?thesis
    unfolding strip_def [of "strip s"] a b by simp
qed


lemma parse_lines_tokens:
  "parse_lines raws st = parse_lines (filter (\<lambda>l. l \<noteq> [] \<and> l \<noteq> ''!'') (map strip raws)) st"
proof (induction raws arbitrary: st)
  case Nil
  then show ?case by simp
next
  case (Cons r raws)
  obtain T ch cp where st: "st = (T, ch, cp)" by (cases st) auto
  show ?case
    unfolding st
    by (simp add: Cons.IH [symmetric] strip_strip Let_def split: sum.splits option.splits)
qed






lemma parse_lines_skip:
  "parse_lines xs st
     = parse_lines (filter (\<lambda>l. \<not> unrecognised l)
                      (filter (\<lambda>l. l \<noteq> [] \<and> l \<noteq> ''!'') (map strip xs))) st"
proof (induction xs arbitrary: st)
  case Nil
  then show ?case by simp
next
  case (Cons x xs)
  obtain T ch cp where st: "st = (T, ch, cp)" by (cases st) auto
  let ?f = "\<lambda>xs. filter (\<lambda>l. \<not> unrecognised l)
                      (filter (\<lambda>l. l \<noteq> [] \<and> l \<noteq> ''!'') (map strip xs))"
  show ?case
  proof (cases "strip x = [] \<or> strip x = ''!''")
    case True
    then have "?f (x # xs) = ?f xs" by auto
    with True show ?thesis unfolding st using Cons.IH [of "(T, ch, cp)"] by (simp add: Let_def)
  next
    case False
    show ?thesis
    proof (cases "unrecognised (strip x)")
      case True
      with False have "?f (x # xs) = ?f xs" by auto
      with True False show ?thesis unfolding st using Cons.IH [of "(T, ch, cp)"]
        by (simp add: Let_def unrecognised_def)
    next
      case F: False
      with False have f: "?f (x # xs) = strip x # ?f xs" by auto
      from F have "parse_header_line (strip x) = Inr None \<Longrightarrow> parse_track_line (strip x) \<noteq> None"
        by (simp add: unrecognised_def)
      then show ?thesis
        unfolding f unfolding st using False
        by (auto simp add: Cons.IH [symmetric] strip_strip Let_def simp del: filter_filter
                 split: sum.splits option.splits)
    qed
  qed
qed

lemma parse_lines_junk:
  assumes "\<forall>l \<in> set (filter (\<lambda>l. l \<noteq> [] \<and> l \<noteq> ''!'') (map strip xs)). unrecognised l"
  shows "parse_lines xs st = Inr st"
proof -
  from assms have "filter (\<lambda>l. \<not> unrecognised l)
                      (filter (\<lambda>l. l \<noteq> [] \<and> l \<noteq> ''!'') (map strip xs)) = []"
    by (simp only: filter_empty_conv) blast
  then show ?thesis using parse_lines_skip [of xs st] by (simp del: filter_filter)
qed

lemma parse_raw_data_tokens:
  "parse_raw_data data =
     (case parse_lines (tokenize data) ([], None, []) of
        Inl e \<Rightarrow> Inl e
      | Inr (tracks, current_header, current_points) \<Rightarrow>
          Inr (if current_header \<noteq> None \<or> current_points \<noteq> []
               then tracks @ [(current_header, current_points)] else tracks))"
  unfolding parse_raw_data_def tokenize_def Let_def
  by (subst parse_lines_tokens) (rule refl)

lemma token_clean:
  assumes "l \<in> set (filter (\<lambda>l. l \<noteq> [] \<and> l \<noteq> ''!'') (map strip xs))"
  shows "strip l = l" "l \<noteq> []" "l \<noteq> ''!''"
  using assms by (auto simp: strip_strip)



lemma sample_coord_lines:
  "parse_track_line (''+1d2'' @ [apos] @ ''3.4'' @ [dquote] @ '',-5d6'' @ [apos] @ ''7.8'' @ [dquote] @ '',9;'')
     = Some (18617 / 18000, - (30613 / 6000), 9)"
  "parse_header_line (''+1d2'' @ [apos] @ ''3.4'' @ [dquote] @ '',-5d6'' @ [apos] @ ''7.8'' @ [dquote] @ '',9;'')
     = Inr None"
  "parse_track_line (''-5d6'' @ [apos] @ ''7.8'' @ [dquote] @ '',+1d2'' @ [apos] @ ''3.4'' @ [dquote] @ '',10;'')
     = Some (- (30613 / 6000), 18617 / 18000, 10)"
  "parse_header_line (''-5d6'' @ [apos] @ ''7.8'' @ [dquote] @ '',+1d2'' @ [apos] @ ''3.4'' @ [dquote] @ '',10;'')
     = Inr None"
proof -
  have d: "digits ''1''" "digits ''2''" "digits ''3''" "digits ''4''" "digits ''5''" "digits ''6''"
    "digits ''7''" "digits ''8''" "digits ''9''" "digits ''10''"
    "is_sign (CHR ''+'')" "is_sign (CHR ''-'')"
    by (simp_all add: digits_def is_digit_def is_sign_def)
  have v: "dms_value (CHR ''+'') ''1'' ''2'' ''3'' ''4'' = 18617 / 18000"
    "dms_value (CHR ''-'') ''5'' ''6'' ''7'' ''8'' = - (30613 / 6000)"
    "py_int ''9'' = 9" "py_int ''10'' = 10"
    by (simp_all add: dms_value_def py_int_def digit_val_def)
  have t: "''+1d2'' @ [apos] @ ''3.4'' @ [dquote] @ '',-5d6'' @ [apos] @ ''7.8'' @ [dquote] @ '',9;''
      = coord_text (CHR ''+'') ''1'' ''2'' ''3'' ''4'' (CHR ''-'') ''5'' ''6'' ''7'' ''8'' ''9'' @ []"
    "''-5d6'' @ [apos] @ ''7.8'' @ [dquote] @ '',+1d2'' @ [apos] @ ''3.4'' @ [dquote] @ '',10;''
      = coord_text (CHR ''-'') ''5'' ''6'' ''7'' ''8'' (CHR ''+'') ''1'' ''2'' ''3'' ''4'' ''10'' @ []"
    by (simp_all add: coord_text_def dms_text_def)
  show "parse_track_line (''+1d2'' @ [apos] @ ''3.4'' @ [dquote] @ '',-5d6'' @ [apos] @ ''7.8'' @ [dquote] @ '',9;'')
     = Some (18617 / 18000, - (30613 / 6000), 9)"
    unfolding t parse_track_line_text [OF d(11,1,2,3,4,12,5,6,7,8,9)] v ..
  show "parse_track_line (''-5d6'' @ [apos] @ ''7.8'' @ [dquote] @ '',+1d2'' @ [apos] @ ''3.4'' @ [dquote] @ '',10;'')
     = Some (- (30613 / 6000), 18617 / 18000, 10)"
    unfolding t parse_track_line_text [OF d(12,5,6,7,8,11,1,2,3,4,10)] v ..
  show "parse_header_line (''+1d2'' @ [apos] @ ''3.4'' @ [dquote] @ '',-5d6'' @ [apos] @ ''7.8'' @ [dquote] @ '',9;'')
     = Inr None"
    unfolding t by (rule parse_header_line_coord [OF d(11)])
  show "parse_header_line (''-5d6'' @ [apos] @ ''7.8'' @ [dquote] @ '',+1d2'' @ [apos] @ ''3.4'' @ [dquote] @ '',10;'')
     = Inr None"
    unfolding t by (rule parse_header_line_coord [OF d(12)])
qed

lemma sample_tokens:
  "tokenize (''+1d2'' @ [apos] @ ''3.4'' @ [dquote] @ '',-5d6'' @ [apos] @ ''7.8'' @ [dquote] @ '',9;''
             @ [CHR 0x0D, CHR 0x0A] @ ''!'' @ [CHR 0x0A, CHR 0x0A]
             @ ''-5d6'' @ [apos] @ ''7.8'' @ [dquote] @ '',+1d2'' @ [apos] @ ''3.4'' @ [dquote] @ '',10;'')
   = [''+1d2'' @ [apos] @ ''3.4'' @ [dquote] @ '',-5d6'' @ [apos] @ ''7.8'' @ [dquote] @ '',9;'',
      ''-5d6'' @ [apos] @ ''7.8'' @ [dquote] @ '',+1d2'' @ [apos] @ ''3.4'' @ [dquote] @ '',10;'']"
  by (simp add: tokenize_def decode_ascii_ignore_def strip_def is_space_def apos_def dquote_def)


lemma tokens_clean:
  "filter (\<lambda>l. l \<noteq> [] \<and> l \<noteq> ''!'') (map strip (tokenize data)) = tokenize data"
proof -
  have m: "map strip (tokenize data) = tokenize data"
    by (rule map_idI) (auto simp: tokenize_def strip_strip)
  have f: "filter (\<lambda>l. l \<noteq> [] \<and> l \<noteq> ''!'') (tokenize data) = tokenize data"
    unfolding filter_id_conv by (auto simp: tokenize_def)
  show ?thesis unfolding m f ..
qed




lemma sample_header_lines:
  "parse_header_line ''n1,x1,y1;t202401151030,N0''
     = Inr (Some \<lparr>type = ''Unknown(x,y)'', record_num = 1, latitude = 0, longitude = 0,
                   timestamp = ''2024-01-15 10:30'', total_records = 0\<rparr>)"
  "parse_header_line ''n2,x1,y1;t202401151031,N1''
     = Inr (Some \<lparr>type = ''Unknown(x,y)'', record_num = 2, latitude = 0, longitude = 0,
                   timestamp = ''2024-01-15 10:31'', total_records = 1\<rparr>)"
proof -
  have d: "digits ''1''" "digits ''2''" "digits ''0''" "is_lower (CHR ''x'')" "is_lower (CHR ''y'')"
    "digits ''202401151030''" "digits ''202401151031''"
    by (simp_all add: digits_def is_digit_def is_lower_def)
  have v: "py_int ''1'' = 1" "py_int ''2'' = 2" "py_int ''0'' = 0"
    by (simp_all add: py_int_def digit_val_def)
  have t: "''n1,x1,y1;t202401151030,N0''
             = header_text ''1'' (CHR ''x'') ''1'' (CHR ''y'') ''1'' ''202401151030'' ''0'' @ []"
    "''n2,x1,y1;t202401151031,N1''
             = header_text ''2'' (CHR ''x'') ''1'' (CHR ''y'') ''1'' ''202401151031'' ''1'' @ []"
    by (simp_all add: header_text_def)
  show "parse_header_line ''n1,x1,y1;t202401151030,N0''
     = Inr (Some \<lparr>type = ''Unknown(x,y)'', record_num = 1, latitude = 0, longitude = 0,
                   timestamp = ''2024-01-15 10:30'', total_records = 0\<rparr>)"
    unfolding t parse_header_line_text [OF d(1,4,1,5,1,6,3)]
    using v by (simp add: py_slice_def)
  show "parse_header_line ''n2,x1,y1;t202401151031,N1''
     = Inr (Some \<lparr>type = ''Unknown(x,y)'', record_num = 2, latitude = 0, longitude = 0,
                   timestamp = ''2024-01-15 10:31'', total_records = 1\<rparr>)"
    unfolding t parse_header_line_text [OF d(2,4,1,5,1,7,1)]
    using v by (simp add: py_slice_def)
qed

lemma sample_tokens_headers:
  "tokenize (''+1d2'' @ [apos] @ ''3.4'' @ [dquote] @ '',-5d6'' @ [apos] @ ''7.8'' @ [dquote] @ '',9;''
             @ [CHR 0x0A] @ ''n1,x1,y1;t202401151030,N0'' @ [CHR 0x0A]
             @ ''n2,x1,y1;t202401151031,N1'' @ [CHR 0x0A])
   = [''+1d2'' @ [apos] @ ''3.4'' @ [dquote] @ '',-5d6'' @ [apos] @ ''7.8'' @ [dquote] @ '',9;'',
      ''n1,x1,y1;t202401151030,N0'', ''n2,x1,y1;t202401151031,N1'']"
  by (simp add: tokenize_def decode_ascii_ignore_def strip_def is_space_def apos_def dquote_def)

lemma sample_tracks:
  "parse_raw_data (''+1d2'' @ [apos] @ ''3.4'' @ [dquote] @ '',-5d6'' @ [apos] @ ''7.8'' @ [dquote] @ '',9;''
             @ [CHR 0x0A] @ ''n1,x1,y1;t202401151030,N0'' @ [CHR 0x0A]
             @ ''n2,x1,y1;t202401151031,N1'' @ [CHR 0x0A])
   = Inr [(None, [(18617 / 18000, - (30613 / 6000), 9)]),
          (Some \<lparr>type = ''Unknown(x,y)'', record_num = 1, latitude = 0, longitude = 0,
                   timestamp = ''2024-01-15 10:30'', total_records = 0\<rparr>, []),
          (Some \<lparr>type = ''Unknown(x,y)'', record_num = 2, latitude = 0, longitude = 0,
                   timestamp = ''2024-01-15 10:31'', total_records = 1\<rparr>, [])]"
proof -
  let ?c = "''+1d2'' @ [apos] @ ''3.4'' @ [dquote] @ '',-5d6'' @ [apos] @ ''7.8'' @ [dquote] @ '',9;''"
  have s: "strip ?c = ?c" "strip ''n1,x1,y1;t202401151030,N0'' = ''n1,x1,y1;t202401151030,N0''"
    "strip ''n2,x1,y1;t202401151031,N1'' = ''n2,x1,y1;t202401151031,N1''"
    by (simp_all add: strip_def is_space_def apos_def dquote_def)
  have n: "?c \<noteq> []" "?c \<noteq> ''!''" by simp_all
  show ?thesis
    unfolding parse_raw_data_tokens sample_tokens_headers
    using s n sample_coord_lines(1,2) sample_header_lines
    by (simp add: Let_def del: append.simps)
qed


lemma split_on_absent: "c \<notin> set s \<Longrightarrow> split_on c s = [s]"
  by (induction s) auto

lemma strip_id:
  assumes "s \<noteq> []" "\<not> is_space (hd s)" "\<not> is_space (last s)"
  shows "strip s = s"
proof -
  from assms(1,2) have a: "dropWhile is_space s = s" by (cases s) simp_all
  from assms(1,3) have b: "dropWhile is_space (rev s) = rev s"
    by (cases "rev s") (simp_all add: last_rev [symmetric] hd_rev)
  show ?thesis unfolding strip_def a b by simp
qed

lemma overflow_tokens:
  "tokenize (''n1,m1'' @ replicate 309 (CHR ''0'') @ '',l1;t202401151030,N5'')
     = [''n1,m1'' @ replicate 309 (CHR ''0'') @ '',l1;t202401151030,N5'']"
proof -
  let ?l = "''n1,m1'' @ replicate 309 (CHR ''0'') @ '',l1;t202401151030,N5''"
  have d: "decode_ascii_ignore ?l = ?l"
    by (simp add: decode_ascii_ignore_def)
  have "CHR 0x0A \<notin> set ?l" by simp
  then have sp: "split_on (CHR 0x0A) ?l = [?l]" by (rule split_on_absent)
  have st: "strip ?l = ?l"
    by (rule strip_id) (simp_all add: is_space_def)
  have ne: "?l \<noteq> []" "?l \<noteq> ''!''" by simp_all
  show ?thesis
    unfolding tokenize_def d sp using st ne by (simp del: append.simps)
qed

lemma overflow_buffer:
  "parse_raw_data (''n1,m1'' @ replicate 309 (CHR ''0'') @ '',l1;t202401151030,N5'') = Inl OverflowError"
proof -
  let ?l = "''n1,m1'' @ replicate 309 (CHR ''0'') @ '',l1;t202401151030,N5''"
  have st: "strip ?l = ?l"
    by (rule strip_id) (simp_all add: is_space_def)
  have ne: "?l \<noteq> []" "?l \<noteq> ''!''" by simp_all
  show ?thesis
    unfolding parse_raw_data_tokens overflow_tokens
    using st ne overflow_line by (simp add: Let_def del: append.simps)
qed

lemma parse_raw_data_junk:
  assumes "\<forall>l \<in> set (tokenize data). unrecognised l"
  shows "parse_raw_data data = Inr []"
proof -
  from assms have "\<forall>l \<in> set (filter (\<lambda>l. l \<noteq> [] \<and> l \<noteq> ''!'') (map strip (tokenize data))).
                     unrecognised l"
    unfolding tokens_clean .
  from parse_lines_junk [OF this] show ?thesis
    unfolding parse_raw_data_tokens by simp
qed

text \<open>
  C7. The buffer that holds the one line \<open>n1,m1000...0,l1;t202401151030,N5\<close>, whose first
  value is \<open>1\<close> followed by 309 zeros: \<open>parse_raw_data\<close> does not return on it, it
  raises the \<open>OverflowError\<close> of \<open>parse_header_line\<close>.
\<close>

theorem parse_raw_data_overflow:
  "parse_raw_data (''n1,m1'' @ replicate 309 (CHR ''0'') @ '',l1;t202401151030,N5'') = Inl OverflowError"
  by (rule overflow_buffer)

theorem parse_raw_data_overflow_witness:
  "isl (parse_raw_data (''n1,m1'' @ replicate 309 (CHR ''0'') @ '',l1;t202401151030,N5''))"
  using parse_raw_data_overflow by simp

section \<open>The receive loop\<close>

lemma case_option_id: "(case x of None \<Rightarrow> None | Some y \<Rightarrow> Some y) = x"
  by (cases x) simp_all

lemma recv_loop_append:
  "recv_loop es start timeout idle ldt d = None \<Longrightarrow>
   recv_loop (es @ fs) start timeout idle ldt d
     = recv_loop fs start timeout idle
         (case last_arrival es of Some l \<Rightarrow> Some l | None \<Rightarrow> ldt) (d @ received es)"
proof (induction es arbitrary: ldt d)
  case Nil
  then show ?case by simp
next
  case (Cons e es)
  show ?case
  proof (cases e)
    case (Poll t w t')
    with Cons.prems have lt: "t - start < timeout" by (simp split: if_splits)
    show ?thesis
    proof (cases "w = []")
      case True
      with Cons.prems Poll lt have "recv_loop es start timeout idle ldt d = None"
        by (simp split: if_splits)
      from Cons.IH [OF this] Cons.prems Poll lt True show ?thesis
        by (simp add: case_option_id split: if_splits)
    next
      case False
      with Cons.prems Poll lt have "recv_loop es start timeout idle (Some t') (d @ w) = None"
        by simp
      from Cons.IH [OF this] Poll lt False show ?thesis
        by (simp split: option.splits)
    qed
  next
    case (Broken t)
    with Cons.prems show ?thesis by (simp split: if_splits)
  qed
qed

lemma recv_loop_silent:
  "\<forall>e \<in> set es. silent e \<and> loop_clock e - start < timeout \<Longrightarrow>
   recv_loop es start timeout idle None d = None"
proof (induction es)
  case Nil
  then show ?case by simp
next
  case (Cons e es)
  then show ?case by (cases e) simp_all
qed

lemma recv_loop_timeout:
  "timeout \<le> loop_clock e - start \<Longrightarrow> recv_loop (e # es) start timeout idle ldt d = Some (Inr d)"
  by (cases e) simp_all

lemma recv_loop_ends:
  "timeout \<le> loop_clock e - start \<Longrightarrow> recv_loop (pre @ e # post) start timeout idle ldt d \<noteq> None"
proof (cases "recv_loop pre start timeout idle ldt d")
  case None
  assume "timeout \<le> loop_clock e - start"
  then show ?thesis
    unfolding recv_loop_append [OF None] by (simp add: recv_loop_timeout)
next
  case (Some r)
  have "recv_loop (pre @ fs) start timeout idle ldt d = Some r" for fs
    using Some
  proof (induction pre arbitrary: ldt d)
    case Nil
    then show ?case by simp
  next
    case (Cons x xs)
    then show ?case by (cases x) (auto split: if_splits)
  qed
  then show ?thesis by simp
qed

lemma receive_data_running:
  "receive_data True start es timeout idle = None
     \<longleftrightarrow> recv_loop es start timeout idle None [] = None"
  by (simp add: receive_data_def split: option.splits sum.splits)

text \<open>
  C8. As long as every poll is silent and within the hard timeout, the loop goes on,
  whatever the idle timeout and however long the silence: the idle timeout is not checked
  before the first data. Once data has arrived, the first silent poll within the hard
  timeout that finds at least \<open>idle_timeout\<close> passed since the last arrival ends the
  reception with the concatenation of all chunks received. And a turn of the loop in
  which the hard timeout has passed ends the reception at the latest, with what was
  received before, whether or not data has arrived. The clock is taken never to read
  \<open>0.0\<close>, which Python would take for "no data yet".
\<close>

theorem idle_and_hard_timeout:
  "((\<forall>e \<in> set es. silent e \<and> loop_clock e - start < timeout) \<longrightarrow>
      receive_data True start es timeout idle = None)
   \<and> (receive_data True start pre timeout idle = None \<and> received pre \<noteq> []
        \<and> last_arrival pre = Some l \<and> l \<noteq> 0 \<and> t - start < timeout \<and> idle \<le> t' - l \<longrightarrow>
        receive_data True start (pre @ Poll t [] t' # post) timeout idle
          = Some (Inr (Some (received pre))))
   \<and> (timeout \<le> loop_clock e - start \<longrightarrow>
        receive_data True start (pre @ e # post) timeout idle \<noteq> None)
   \<and> (receive_data True start pre timeout idle = None \<and> timeout \<le> loop_clock e - start \<longrightarrow>
        receive_data True start (pre @ e # post) timeout idle
          = Some (Inr (if received pre \<noteq> [] then Some (received pre) else None)))"
proof (intro conjI impI)
  assume "\<forall>e \<in> set es. silent e \<and> loop_clock e - start < timeout"
  from recv_loop_silent [OF this] show "receive_data True start es timeout idle = None"
    by (simp add: receive_data_def)
next
  assume a: "receive_data True start pre timeout idle = None \<and> received pre \<noteq> []
        \<and> last_arrival pre = Some l \<and> l \<noteq> 0 \<and> t - start < timeout \<and> idle \<le> t' - l"
  then have n: "recv_loop pre start timeout idle None [] = None"
    by (simp add: receive_data_running)
  from a show "receive_data True start (pre @ Poll t [] t' # post) timeout idle
          = Some (Inr (Some (received pre)))"
    by (simp add: receive_data_def recv_loop_append [OF n])
next
  assume "timeout \<le> loop_clock e - start"
  from recv_loop_ends [OF this]
  show "receive_data True start (pre @ e # post) timeout idle \<noteq> None"
    by (simp add: receive_data_running)
next
  assume a: "receive_data True start pre timeout idle = None \<and> timeout \<le> loop_clock e - start"
  then have n: "recv_loop pre start timeout idle None [] = None"
    by (simp add: receive_data_running)
  from a show "receive_data True start (pre @ e # post) timeout idle
          = Some (Inr (if received pre \<noteq> [] then Some (received pre) else None))"
    by (simp add: receive_data_def recv_loop_append [OF n] recv_loop_timeout)
qed

theorem idle_and_hard_timeout_witness:
  "receive_data True 1000 [Poll 1000 [] 1000, Poll 1010 [] 1010] 60 3 = None
   \<and> receive_data True 1000
         [Poll 1000 ''ab'' 1000, Poll 1001 [] 1001, Poll 1002 ''c'' 1002, Poll 1003 ''d'' 1003,
          Poll 1006 [] 1006, Poll 1007 ''late'' 1007] 60 3
       = Some (Inr (Some ''abcd''))
   \<and> receive_data True 1000
         [Poll 1000 ''ab'' 1000, Poll 1001 [] 1001, Poll 1002 ''c'' 1002, Poll 1003 ''d'' 1003,
          Poll 1060 ''e'' 1060, Poll 1061 [] 1061] 60 3
       \<noteq> None
   \<and> receive_data True 1000
         [Poll 1000 ''ab'' 1000, Poll 1001 [] 1001, Poll 1002 ''c'' 1002, Poll 1003 ''d'' 1003,
          Poll 1060 ''e'' 1060, Poll 1061 [] 1061] 60 3
       = Some (Inr (Some ''abcd''))"
proof -
  let ?pre = "[Poll 1000 ''ab'' 1000, Poll 1001 [] 1001, Poll 1002 ''c'' 1002, Poll 1003 ''d'' 1003]"
  have r: "receive_data True 1000 ?pre 60 3 = None" by (simp add: receive_data_def)
  have v: "received ?pre = ''abcd''" "last_arrival ?pre = Some 1003" by simp_all
  from idle_and_hard_timeout [of "[Poll 1000 [] 1000, Poll 1010 [] 1010]" 1000 60 3 ?pre 1003
      1006 1006 "[Poll 1007 ''late'' 1007]" "Poll 1060 ''e'' 1060"]
    idle_and_hard_timeout [of "[]" 1000 60 3 ?pre 1003 1006 1006 "[Poll 1061 [] 1061]"
      "Poll 1060 ''e'' 1060"]
    r v
  show ?thesis by simp
qed

text \<open>
  C1, as the code has it. A session that ends with no byte accumulated returns \<open>None\<close>,
  which is also what \<open>receive_data\<close> returns when the port is not connected; what it
  returns as bytes is never empty, and comes from a connected port.
\<close>

theorem empty_reception_is_none:
  "(recv_loop es start timeout idle None [] = Some (Inr []) \<longrightarrow>
      receive_data True start es timeout idle = Some (Inr None)
      \<and> receive_data True start es timeout idle = receive_data False start es timeout idle)
   \<and> (receive_data is_open start es timeout idle = Some (Inr (Some d)) \<longrightarrow> is_open \<and> d \<noteq> [])"
  by (auto simp: receive_data_def split: option.splits sum.splits if_splits)

theorem empty_reception_is_none_witness:
  "receive_data True 1000 [Poll 1000 [] 1000, Poll 1060 [] 1060] 60 3 = Some (Inr None)
   \<and> receive_data True 1000 [Poll 1000 [] 1000, Poll 1060 [] 1060] 60 3
       = receive_data False 1000 [Poll 1000 [] 1000, Poll 1060 [] 1060] 60 3
   \<and> ''ab'' \<noteq> []"
proof -
  have a: "recv_loop [Poll 1000 [] 1000, Poll 1060 [] 1060] 1000 60 3 None [] = Some (Inr [])"
    by simp
  have b: "receive_data True 1000 [Poll 1000 ''ab'' 1000, Poll 1060 [] 1060] 60 3 = Some (Inr (Some ''ab''))"
    by (simp add: receive_data_def)
  from empty_reception_is_none [of "[Poll 1000 [] 1000, Poll 1060 [] 1060]" 1000 60 3] a
    empty_reception_is_none [of "[Poll 1000 ''ab'' 1000, Poll 1060 [] 1060]" 1000 60 3 True "''ab''"] b
  show ?thesis by blast
qed

text \<open>
  C1 as stated asks for a result of an empty reception that differs from the result of
  a failed channel: a connected session that hears nothing until the hard timeout and a
  call on a port that is not connected return the same value.
\<close>

theorem empty_reception_like_not_connected:
  "receive_data True 1000 [Poll 1000 [] 1000, Poll 1060 [] 1060] 60 3 = Some (Inr None)
   \<and> receive_data False 1000 [Poll 1000 [] 1000, Poll 1060 [] 1060] 60 3 = Some (Inr None)"
  by (simp add: receive_data_def)

section \<open>Exported files\<close>

lemma export_one_single:
  "fmt \<noteq> RAW \<Longrightarrow>
   \<exists>w. export_one fmt points output_file track_name track_timestamp = [w]
       \<and> write_points w = points \<and> write_path w = output_file"
  by (cases fmt) simp_all

lemma export_track_points:
  "fmt \<noteq> RAW \<Longrightarrow>
   map write_points (export_track fmt filename_prefix idx (h, p)) = (if p = [] then [] else [p])"
  by (cases fmt; cases h) (simp_all add: export_track_def Let_def)

lemma export_tracks_split_points:
  "fmt \<noteq> RAW \<Longrightarrow>
   map write_points
     (concat (map (\<lambda>(idx, tr). export_track fmt filename_prefix idx tr) (enumerate n tracks)))
     = filter (\<lambda>p. p \<noteq> []) (map snd tracks)"
proof (induction tracks arbitrary: n)
  case Nil
  then show ?case by simp
next
  case (Cons tr tracks)
  obtain h p where tr: "tr = (h, p)" by (cases tr) auto
  from Cons show ?case
    by (simp add: tr export_track_points)
qed

lemma sample_tracks_headerless:
  "parse_raw_data (''+1d2'' @ [apos] @ ''3.4'' @ [dquote] @ '',-5d6'' @ [apos] @ ''7.8'' @ [dquote] @ '',9;''
             @ [CHR 0x0D, CHR 0x0A] @ ''!'' @ [CHR 0x0A, CHR 0x0A]
             @ ''-5d6'' @ [apos] @ ''7.8'' @ [dquote] @ '',+1d2'' @ [apos] @ ''3.4'' @ [dquote] @ '',10;'')
   = Inr [(None, [(18617 / 18000, - (30613 / 6000), 9), (- (30613 / 6000), 18617 / 18000, 10)])]"
proof -
  let ?c1 = "''+1d2'' @ [apos] @ ''3.4'' @ [dquote] @ '',-5d6'' @ [apos] @ ''7.8'' @ [dquote] @ '',9;''"
  let ?c2 = "''-5d6'' @ [apos] @ ''7.8'' @ [dquote] @ '',+1d2'' @ [apos] @ ''3.4'' @ [dquote] @ '',10;''"
  have s: "strip ?c1 = ?c1" "strip ?c2 = ?c2"
    by (simp_all add: strip_def is_space_def apos_def dquote_def)
  have n: "?c1 \<noteq> []" "?c1 \<noteq> ''!''" "?c2 \<noteq> []" "?c2 \<noteq> ''!''" by simp_all
  show ?thesis
    unfolding parse_raw_data_tokens sample_tokens
    using s n sample_coord_lines
    by (simp add: Let_def del: append.simps)
qed

text \<open>
  C9. With \<open>split_by_track = True\<close> and a format other than \<open>RAW\<close>: when no track has a
  header, \<open>export_tracks\<close> writes a single file, named by the prefix and the format, that
  holds the points of all tracks in the order of the tracks; when some track has a
  header, it writes one file for each track that has points, in the order of the tracks,
  and none for a track without points.
\<close>

theorem export_tracks_split:
  "(fmt \<noteq> RAW \<and> parse_raw_data data = Inr tracks \<and> (\<forall>(h, p) \<in> set tracks. h = None) \<longrightarrow>
      (\<exists>w. export_tracks data fmt True filename_prefix = Inr [w]
           \<and> write_points w = concat (map snd tracks)
           \<and> write_path w = filename_prefix @ ''.'' @ format_value fmt))
   \<and> (fmt \<noteq> RAW \<and> parse_raw_data data = Inr tracks \<and> (\<exists>(h, p) \<in> set tracks. h \<noteq> None) \<longrightarrow>
        (\<exists>ws. export_tracks data fmt True filename_prefix = Inr ws
              \<and> map write_points ws = filter (\<lambda>p. p \<noteq> []) (map snd tracks)))"
proof (intro conjI impI)
  assume a: "fmt \<noteq> RAW \<and> parse_raw_data data = Inr tracks \<and> (\<forall>(h, p) \<in> set tracks. h = None)"
  then have "\<not> list_ex (\<lambda>(h, p). h \<noteq> None) tracks"
    by (auto simp: list_ex_iff)
  with a have "export_tracks data fmt True filename_prefix
      = Inr (export_one fmt (concat (map snd tracks)) (filename_prefix @ ''.'' @ format_value fmt)
               ''GPS Track'' [])"
    by (simp add: export_tracks_def Let_def)
  with a export_one_single [of fmt "concat (map snd tracks)" "filename_prefix @ ''.'' @ format_value fmt"
      "''GPS Track''" "[]"]
  show "\<exists>w. export_tracks data fmt True filename_prefix = Inr [w]
           \<and> write_points w = concat (map snd tracks)
           \<and> write_path w = filename_prefix @ ''.'' @ format_value fmt"
    by auto
next
  assume a: "fmt \<noteq> RAW \<and> parse_raw_data data = Inr tracks \<and> (\<exists>(h, p) \<in> set tracks. h \<noteq> None)"
  then have "list_ex (\<lambda>(h, p). h \<noteq> None) tracks"
    by (auto simp: list_ex_iff)
  with a have "export_tracks data fmt True filename_prefix
      = Inr (concat (map (\<lambda>(idx, tr). export_track fmt filename_prefix idx tr) (enumerate 0 tracks)))"
    by (simp add: export_tracks_def)
  with a export_tracks_split_points [of fmt filename_prefix 0 tracks]
  show "\<exists>ws. export_tracks data fmt True filename_prefix = Inr ws
              \<and> map write_points ws = filter (\<lambda>p. p \<noteq> []) (map snd tracks)"
    by simp
qed

theorem export_tracks_split_witness:
  "(\<exists>w. export_tracks
           (''+1d2'' @ [apos] @ ''3.4'' @ [dquote] @ '',-5d6'' @ [apos] @ ''7.8'' @ [dquote] @ '',9;''
             @ [CHR 0x0D, CHR 0x0A] @ ''!'' @ [CHR 0x0A, CHR 0x0A]
             @ ''-5d6'' @ [apos] @ ''7.8'' @ [dquote] @ '',+1d2'' @ [apos] @ ''3.4'' @ [dquote] @ '',10;'')
           KML True ''track'' = Inr [w]
        \<and> write_points w = [(18617 / 18000, - (30613 / 6000), 9), (- (30613 / 6000), 18617 / 18000, 10)]
        \<and> write_path w = ''track.kml'')
   \<and> (\<exists>ws. export_tracks
           (''+1d2'' @ [apos] @ ''3.4'' @ [dquote] @ '',-5d6'' @ [apos] @ ''7.8'' @ [dquote] @ '',9;''
             @ [CHR 0x0A] @ ''n1,x1,y1;t202401151030,N0'' @ [CHR 0x0A]
             @ ''n2,x1,y1;t202401151031,N1'' @ [CHR 0x0A])
           CSV True ''track'' = Inr ws
        \<and> map write_points ws = [[(18617 / 18000, - (30613 / 6000), 9)]])"
proof -
  let ?h1 = "\<lparr>type = ''Unknown(x,y)'', record_num = 1, latitude = 0, longitude = 0,
               timestamp = ''2024-01-15 10:30'', total_records = 0\<rparr>"
  let ?h2 = "\<lparr>type = ''Unknown(x,y)'', record_num = 2, latitude = 0, longitude = 0,
               timestamp = ''2024-01-15 10:31'', total_records = 1\<rparr>"
  let ?t1 = "[(None, [(18617 / 18000 :: rat, - (30613 / 6000) :: rat, 9 :: nat),
                      (- (30613 / 6000), 18617 / 18000, 10)])] :: track list"
  let ?t2 = "[(None, [(18617 / 18000 :: rat, - (30613 / 6000) :: rat, 9 :: nat)]),
              (Some ?h1, []), (Some ?h2, [])] :: track list"
  have a: "KML \<noteq> RAW" "CSV \<noteq> RAW" "\<forall>(h, p) \<in> set ?t1. h = None" "\<exists>(h, p) \<in> set ?t2. h \<noteq> None"
    by simp_all
  from export_tracks_split [of KML _ ?t1 "''track''", THEN conjunct1] sample_tracks_headerless a(1,3)
  have b: "\<exists>w. export_tracks
           (''+1d2'' @ [apos] @ ''3.4'' @ [dquote] @ '',-5d6'' @ [apos] @ ''7.8'' @ [dquote] @ '',9;''
             @ [CHR 0x0D, CHR 0x0A] @ ''!'' @ [CHR 0x0A, CHR 0x0A]
             @ ''-5d6'' @ [apos] @ ''7.8'' @ [dquote] @ '',+1d2'' @ [apos] @ ''3.4'' @ [dquote] @ '',10;'')
           KML True ''track'' = Inr [w]
        \<and> write_points w = concat (map snd ?t1)
        \<and> write_path w = ''track'' @ ''.'' @ format_value KML"
    by blast
  from export_tracks_split [of CSV _ ?t2 "''track''", THEN conjunct2] sample_tracks a(2,4)
  have c: "\<exists>ws. export_tracks
           (''+1d2'' @ [apos] @ ''3.4'' @ [dquote] @ '',-5d6'' @ [apos] @ ''7.8'' @ [dquote] @ '',9;''
             @ [CHR 0x0A] @ ''n1,x1,y1;t202401151030,N0'' @ [CHR 0x0A]
             @ ''n2,x1,y1;t202401151031,N1'' @ [CHR 0x0A])
           CSV True ''track'' = Inr ws
        \<and> map write_points ws = filter (\<lambda>p. p \<noteq> []) (map snd ?t2)"
    by blast
  from b c show ?thesis by simp
qed

end
